theory Spec2Isabelle
  imports Complex_Main "HOL-Library.Sublist"
begin

section \<open>Python string primitives used by the scraper\<close>

text \<open>
  Strings are lists of 8-bit characters. \<open>contains sub s\<close> is Python's \<open>sub in s\<close>,
  \<open>startswith s p\<close> is \<open>s.startswith(p)\<close> and \<open>str_replace old new s\<close> is
  \<open>s.replace(old, new)\<close>: the occurrences of \<open>old\<close> are replaced from left to right and
  do not overlap.
\<close>

fun contains :: "string \<Rightarrow> string \<Rightarrow> bool" where
  "contains sub [] = (sub = [])"
| "contains sub (c # cs) = (prefix sub (c # cs) \<or> contains sub cs)"

definition startswith :: "string \<Rightarrow> string \<Rightarrow> bool" where
  "startswith s p = prefix p s"

definition endswith :: "string \<Rightarrow> string \<Rightarrow> bool" where
  "endswith s suf = (length suf \<le> length s \<and> drop (length s - length suf) s = suf)"

function str_replace :: "string \<Rightarrow> string \<Rightarrow> string \<Rightarrow> string" where
  "str_replace old new [] = (if old = [] then new else [])"
| "str_replace old new (c # cs) =
     (if old = [] then new @ c # str_replace old new cs
      else if prefix old (c # cs) then new @ str_replace old new (drop (length old) (c # cs))
      else c # str_replace old new cs)"
  by pat_completeness auto
termination
  by (relation "measure (\<lambda>(old, new, s). length s)") (auto simp: neq_Nil_conv)

section \<open>\<open>is_image_url\<close>\<close>

text \<open>
  \<open>re.search(r"\.(jpg|jpeg|png|gif|webp)$", url, re.IGNORECASE)\<close>. The search tries every
  start position; at a position the pattern needs a dot, one of the alternatives
  (letters compared without case) and then \<open>$\<close>. Without \<open>re.MULTILINE\<close>, Python's
  \<open>$\<close> matches at the end of the string and also just before a newline that is the last
  character of the string; \<open>at_dollar\<close> is given what is left of the string.
  Case is folded for the letters A to Z; the characters beyond the 8-bit range that
  Python also folds onto \<open>i\<close> are not part of this string type.
\<close>

definition fold_case :: "char \<Rightarrow> char" where
  "fold_case c =
     (case map_of (zip ''ABCDEFGHIJKLMNOPQRSTUVWXYZ'' ''abcdefghijklmnopqrstuvwxyz'') c of
        Some d \<Rightarrow> d
      | None \<Rightarrow> c)"

definition image_exts :: "string list" where
  "image_exts = [''jpg'', ''jpeg'', ''png'', ''gif'', ''webp'']"

definition at_dollar :: "string \<Rightarrow> bool" where
  "at_dollar rest = (rest = [] \<or> rest = [CHR 0x0A])"

definition match_here :: "string \<Rightarrow> bool" where
  "match_here s =
     (case s of
        [] \<Rightarrow> False
      | c # r \<Rightarrow> c = CHR ''.'' \<and>
          list_ex (\<lambda>e. map fold_case (take (length e) r) = e \<and> at_dollar (drop (length e) r))
            image_exts)"

fun re_search :: "string \<Rightarrow> bool" where
  "re_search [] = match_here []"
| "re_search (c # cs) = (match_here (c # cs) \<or> re_search cs)"

definition is_image_url :: "string \<Rightarrow> bool" where
  "is_image_url url = re_search url"

text \<open>
  The reading "the image extension is the final characters of the whole string", for
  comparison with \<open>is_image_url\<close>.
\<close>

definition ends_with_image_ext :: "string \<Rightarrow> bool" where
  "ends_with_image_ext url =
     list_ex (\<lambda>e. endswith (map fold_case url) (CHR ''.'' # e)) image_exts"

section \<open>Input records\<close>

text \<open>
  \<open>json.load\<close> gives Python values; a post is one of them. \<open>py_get d k default\<close> is
  \<open>d.get(k, default)\<close>: only a dict has the method, any other value raises
  \<open>AttributeError\<close>. \<open>py_truthy\<close> is the truth value Python gives a value in
  \<open>if not link\<close>.
\<close>

datatype json =
    JNull
  | JBool bool
  | JNum int
  | JStr string
  | JArr "json list"
  | JObj "(string \<times> json) list"

datatype error =
    AttributeError
  | TypeError
  | ValueError
  | OverflowError
  | OSError
  | UnicodeEncodeError
  | RequestException



section \<open>The parsed page\<close>

text \<open>
  \<open>BeautifulSoup(r.content, "html.parser")\<close> is a forest of tags. A tag has a name, its
  list of classes, its other attributes and its children. \<open>tag_get\<close> is \<open>tag.get(k)\<close>.
  \<open>select_ngg\<close> is \<open>soup.select(".ngg-gallery-thumbnail a, .ngg-fancybox")\<close> in document
  order: an \<open>a\<close> below a tag of class \<open>ngg-gallery-thumbnail\<close> (the flag says whether
  such an ancestor was passed), or any tag of class \<open>ngg-fancybox\<close>. \<open>find_all\<close> is
  \<open>soup.find_all(names)\<close>.
\<close>

datatype element =
  Element (name: string) (classes: "string list") (attrs: "(string \<times> string) list")
    (children: "element list")

definition tag_get :: "element \<Rightarrow> string \<Rightarrow> string option" where
  "tag_get tag k = map_of (attrs tag) k"

fun select_ngg :: "bool \<Rightarrow> element \<Rightarrow> element list" where
  "select_ngg inside (Element n cs as ch) =
     (if (inside \<and> n = ''a'') \<or> ''ngg-fancybox'' \<in> set cs then [Element n cs as ch] else [])
     @ concat (map (select_ngg (inside \<or> ''ngg-gallery-thumbnail'' \<in> set cs)) ch)"

fun find_all :: "string list \<Rightarrow> element \<Rightarrow> element list" where
  "find_all names (Element n cs as ch) =
     (if n \<in> set names then [Element n cs as ch] else [])
     @ concat (map (find_all names) ch)"

section \<open>Locating the images of a page\<close>

text \<open>
  \<open>images_to_download\<close> is a Python set of strings. Its members are kept as a list
  without repetition; \<open>set_add\<close> is \<open>set.add\<close>. The list says which strings are in
  the set, not in which order the set is iterated: that order depends on the hash seed
  of the process and is a parameter of the loop that iterates the set (see
  \<open>save_images\<close>).
\<close>

definition set_add :: "string \<Rightarrow> string list \<Rightarrow> string list" where
  "set_add x xs = (if x \<in> set xs then xs else xs @ [x])"

definition full_url :: "string \<Rightarrow> string" where
  "full_url url = str_replace ''/thumbs/'' ''/'' (str_replace ''/thumbs/thumbs_'' ''/'' url)"

text \<open>Strategy 1: the loop over the selected tags.\<close>

fun strategy1 :: "element list \<Rightarrow> string list \<Rightarrow> string list" where
  "strategy1 [] acc = acc"
| "strategy1 (thumb # rest) acc =
     (case tag_get thumb ''href'' of
        None \<Rightarrow> strategy1 rest acc
      | Some href \<Rightarrow>
          if href \<noteq> [] \<and> is_image_url href then strategy1 rest (set_add href acc)
          else strategy1 rest acc)"

text \<open>\<open>tag.get("href") or tag.get("src")\<close>: the first if it is a non-empty string.\<close>

definition href_or_src :: "element \<Rightarrow> string option" where
  "href_or_src tag =
     (case tag_get tag ''href'' of
        None \<Rightarrow> tag_get tag ''src''
      | Some h \<Rightarrow> if h \<noteq> [] then Some h else tag_get tag ''src'')"

text \<open>Strategy 2: the loop over all \<open>a\<close> and \<open>img\<close> tags.\<close>

fun strategy2 :: "element list \<Rightarrow> string list \<Rightarrow> string list" where
  "strategy2 [] acc = acc"
| "strategy2 (tag # rest) acc =
     (case href_or_src tag of
        None \<Rightarrow> strategy2 rest acc
      | Some url \<Rightarrow>
          if url \<noteq> [] \<and> contains ''/wp-content/gallery/'' url then
            (if contains ''/thumbs/'' url then strategy2 rest (set_add (full_url url) acc)
             else strategy2 rest (set_add url acc))
          else strategy2 rest acc)"

definition images_to_download :: "element list \<Rightarrow> string list" where
  "images_to_download soup =
     strategy2 (concat (map (find_all [''a'', ''img'']) soup))
       (strategy1 (concat (map (select_ngg False) soup)) [])"

section \<open>The world outside the program\<close>

text \<open>
  The remote site answers \<open>session.get\<close>: for a page, the request raises or returns a
  status code and the content (already parsed); for an image (\<open>stream=True\<close>), it raises
  or returns a status code, the chunks that \<open>iter_content\<close> delivers and whether copying
  raises after these chunks have been written (the stream breaks, or \<open>f.write\<close>
  fails). \<open>urljoin\<close> and \<open>urlparse(...).path\<close> are library functions; both may raise
  \<open>ValueError\<close>. \<open>py_str\<close> is \<open>str\<close> on a decoded JSON value. \<open>open_fails\<close> says for
  which paths \<open>open(path, "wb")\<close> raises and \<open>makedirs_fails\<close> for which paths
  \<open>os.makedirs\<close> raises (a name too long, a parent that is a file, a directory that
  may not be written). \<open>unprintable\<close> says for which titles the progress line of line 39
  cannot be encoded for the standard output, so that \<open>print\<close> raises
  \<open>UnicodeEncodeError\<close>. \<open>clock_range\<close> is the longest time the clock of the platform
  can hold, and \<open>max_sleep\<close> the longest sleep that the operating system accepts;
  \<open>time.sleep\<close> raises \<open>OverflowError\<close> beyond the first and \<open>OSError\<close> beyond the
  second.
\<close>

datatype page_response = PageRaises | Page int "element list"

datatype image_response = ImageRaises | Image int "string list" bool

record world =
  get_page :: "string \<Rightarrow> page_response"
  get_image :: "string \<Rightarrow> image_response"
  urljoin :: "string \<Rightarrow> string \<Rightarrow> error + string"
  url_path :: "string \<Rightarrow> error + string"
  py_str :: "json \<Rightarrow> string"
  open_fails :: "string \<Rightarrow> bool"
  makedirs_fails :: "string \<Rightarrow> bool"
  unprintable :: "json \<Rightarrow> bool"
  clock_range :: real
  max_sleep :: real

text \<open>
  What the program prints and does to the outside, in order. The state is the file
  system (regular files with their contents, and directories; paths are compared as
  strings), the counter and the trace. The standard output is taken to be open. The
  progress line of line 39 prints the title as the record gives it and raises when the
  title cannot be encoded; the other lines print counts, addresses and exception
  messages, which are taken to be encodable.
\<close>

datatype event =
    PrintFound nat
  | PrintScanning nat nat json
  | GetPage string
  | PrintFailedFetch string int
  | PrintFoundImages nat
  | GetImage string
  | PrintErrorDownloading string
  | Sleep real
  | PrintErrorProcessing
  | PrintDone nat

record state =
  files :: "string \<rightharpoonup> string"
  dirs :: "string set"
  total_downloaded :: nat
  trace :: "event list"

definition log :: "event \<Rightarrow> state \<Rightarrow> state" where
  "log e st = st\<lparr>trace := trace st @ [e]\<rparr>"

definition os_path_exists :: "state \<Rightarrow> string \<Rightarrow> bool" where
  "os_path_exists st p = (files st p \<noteq> None \<or> p \<in> dirs st)"



text \<open>\<open>posixpath.join\<close> of two components and \<open>posixpath.basename\<close>.\<close>

definition os_path_join :: "string \<Rightarrow> string \<Rightarrow> string" where
  "os_path_join a b =
     (if startswith b ''/'' then b
      else if a = [] \<or> endswith a ''/'' then a @ b
      else a @ ''/'' @ b)"

definition os_path_basename :: "string \<Rightarrow> string" where
  "os_path_basename p = rev (takeWhile (\<lambda>c. c \<noteq> CHR ''/'') (rev p))"

section \<open>Downloading the images of one record\<close>

text \<open>Lines 92 to 95: the candidate is made absolute.\<close>

definition resolve :: "world \<Rightarrow> string \<Rightarrow> string \<Rightarrow> error + string" where
  "resolve w link img_url =
     (if startswith img_url ''//'' then Inr (''https:'' @ img_url)
      else if startswith img_url ''/'' then urljoin w link img_url
      else Inr img_url)"

text \<open>
  Lines 104 to 113, the inner \<open>try\<close>: every exception is caught and printed. The file is
  opened (created empty or truncated) only after a response with status 200; the counter
  is incremented only after the \<open>with\<close> block has ended normally.
\<close>

definition fetch_image :: "world \<Rightarrow> string \<Rightarrow> string \<Rightarrow> state \<Rightarrow> state" where
  "fetch_image w img_url filepath st =
     (let st1 = log (GetImage img_url) st in
      case get_image w img_url of
        ImageRaises \<Rightarrow> log (PrintErrorDownloading img_url) st1
      | Image status_code chunks raises \<Rightarrow>
          if status_code = 200 then
            (if open_fails w filepath then log (PrintErrorDownloading img_url) st1
             else
               let st2 = st1\<lparr>files := (files st1)(filepath \<mapsto> concat chunks)\<rparr> in
               if raises then log (PrintErrorDownloading img_url) st2
               else st2\<lparr>total_downloaded := total_downloaded st2 + 1\<rparr>)
          else st1)"

text \<open>
  One pass of the loop of line 91. An exception of \<open>urljoin\<close> or \<open>urlparse\<close> is outside
  the inner \<open>try\<close> and leaves the loop (\<open>Inl\<close>).
\<close>

definition download_image :: "world \<Rightarrow> string \<Rightarrow> string \<Rightarrow> string \<Rightarrow> state \<Rightarrow> error + state" where
  "download_image w link post_media_dir cand st =
     (case resolve w link cand of
        Inl e \<Rightarrow> Inl e
      | Inr img_url \<Rightarrow>
          (case url_path w img_url of
             Inl e \<Rightarrow> Inl e
           | Inr path \<Rightarrow>
               let filepath = os_path_join post_media_dir (os_path_basename path) in
               if os_path_exists st filepath then Inr st
               else Inr (fetch_image w img_url filepath st)))"

text \<open>
  The loop of line 91 over the candidates in the order in which they are visited. The
  result is the exception that left the loop, if any, and the state reached.
\<close>

fun download_images ::
  "world \<Rightarrow> string \<Rightarrow> string \<Rightarrow> string list \<Rightarrow> state \<Rightarrow> error option \<times> state" where
  "download_images w link post_media_dir [] st = (None, st)"
| "download_images w link post_media_dir (cand # rest) st =
     (case download_image w link post_media_dir cand st of
        Inl e \<Rightarrow> (Some e, st)
      | Inr st' \<Rightarrow> download_images w link post_media_dir rest st')"

section \<open>One record\<close>






section \<open>The crawl\<close>





section \<open>Example inputs\<close>

text \<open>
  A page as the gallery plugin renders it: the thumbnail container holds an anchor, and
  the anchor holds the thumbnail image with a relative address.
\<close>

definition example_soup :: "element list" where
  "example_soup =
     [Element ''div'' [''ngg-gallery-thumbnail''] []
        [Element ''a'' []
           [(''href'', ''https://example.com/wp-content/gallery/album/thumbs/thumbs_photo.jpg'')]
           [Element ''img'' [] [(''src'', ''/wp-content/gallery/album/thumbs/thumbs_photo.jpg'')]
              []]]]"

text \<open>Two plain anchors, one at an image and one at its thumbnail.\<close>

definition two_anchors :: "element list" where
  "two_anchors =
     [Element ''a'' [] [(''href'', ''https://example.com/wp-content/gallery/album/a.jpg'')] [],
      Element ''a'' []
        [(''href'', ''https://example.com/wp-content/gallery/album/thumbs/thumbs_a.jpg'')] []]"

text \<open>A lightbox anchor whose address ends with a newline.\<close>

definition newline_anchor :: "element list" where
  "newline_anchor = [Element ''a'' [''ngg-fancybox''] [(''href'', ''photo.jpg'' @ [CHR 0x0A])] []]"

text \<open>
  A page with two gallery anchors; the address of the first is one that \<open>urlparse\<close>
  refuses (an opening bracket in the host that is never closed).
\<close>

definition broken_soup :: "element list" where
  "broken_soup =
     [Element ''a'' [] [(''href'', ''https://[bad/wp-content/gallery/album/a.jpg'')] [],
      Element ''a'' [] [(''href'', ''https://example.com/wp-content/gallery/album/b.jpg'')] []]"

text \<open>
  A site with a gallery page, the page above and a missing page. The full-size images
  are served, the stream of the thumbnail breaks after the first chunk, anything else is
  answered 404. Directory names of more than 255 characters are refused.
\<close>

definition example_world :: world where
  "example_world =
     \<lparr>get_page = (\<lambda>u. if u = ''https://example.com/gallery'' then Page 200 example_soup
                      else if u = ''https://example.com/broken'' then Page 200 broken_soup
                      else if u = ''https://example.com/gone'' then Page 404 []
                      else PageRaises),
      get_image = (\<lambda>u. if u = ''https://example.com/wp-content/gallery/album/photo.jpg''
                         then Image 200 [''JFIF'', ''data''] False
                       else if u = ''https://example.com/wp-content/gallery/album/b.jpg''
                         then Image 200 [''JFIF''] False
                       else if u = ''https://example.com/wp-content/gallery/album/thumbs/thumbs_photo.jpg''
                         then Image 200 [''JF''] True
                       else Image 404 [] False),
      urljoin = (\<lambda>base ref. Inr (''https://example.com'' @ ref)),
      url_path = (\<lambda>u. if startswith u ''https://['' then Inl ValueError
                      else Inr (if startswith u ''https://example.com'' then drop 19 u else u)),
      py_str = (\<lambda>v. ''None''),
      open_fails = (\<lambda>p. 255 < length (os_path_basename p)),
      makedirs_fails = (\<lambda>p. 255 < length (os_path_basename p)),
      unprintable = (\<lambda>t. False),
      clock_range = 9223372036854775807 / 1000000000,
      max_sleep = 9223000000\<rparr>"


definition initial_state :: state where
  "initial_state = \<lparr>files = Map.empty, dirs = {}, total_downloaded = 0, trace = []\<rparr>"

text \<open>The anchor of \<open>example_soup\<close>.\<close>

definition example_anchor :: element where
  "example_anchor =
     Element ''a'' []
       [(''href'', ''https://example.com/wp-content/gallery/album/thumbs/thumbs_photo.jpg'')]
       [Element ''img'' [] [(''src'', ''/wp-content/gallery/album/thumbs/thumbs_photo.jpg'')] []]"

text \<open>The output directory with a file left by an earlier run.\<close>

definition existing_state :: state where
  "existing_state = initial_state\<lparr>files := [''out/gallery/photo.jpg'' \<mapsto> ''old bytes'']\<rparr>"






section \<open>Predicates used in the statements\<close>









text \<open>
  An image whose download fails: the request raises, the status is not a success status,
  or the status is 200 and opening or copying raises.
\<close>

definition image_fails :: "world \<Rightarrow> string \<Rightarrow> string \<Rightarrow> bool" where
  "image_fails w img_url filepath =
     (case get_image w img_url of
        ImageRaises \<Rightarrow> True
      | Image status_code chunks raises \<Rightarrow>
          status_code < 200 \<or> 300 \<le> status_code \<or>
          (status_code = 200 \<and> (open_fails w filepath \<or> raises)))"

text \<open>A candidate that \<open>urljoin\<close> and \<open>urlparse\<close> accept.\<close>

definition resolves :: "world \<Rightarrow> string \<Rightarrow> string \<Rightarrow> bool" where
  "resolves w link cand =
     (case resolve w link cand of
        Inl e \<Rightarrow> False
      | Inr u \<Rightarrow> (case url_path w u of Inl e \<Rightarrow> False | Inr p \<Rightarrow> True))"



section \<open>Notions for comparing two runs\<close>









section \<open>The extension test\<close>

lemma fold_case_dot: "fold_case c = CHR ''.'' \<longleftrightarrow> c = CHR ''.''"
  by (auto simp: fold_case_def split: option.splits if_splits)

lemma re_search_iff: "re_search s \<longleftrightarrow> (\<exists>stem r. s = stem @ r \<and> match_here r)"
proof (induction s)
  case Nil
  then show ?case by simp
next
  case (Cons c cs)
  show ?case
  proof
    assume "re_search (c # cs)"
    then consider "match_here (c # cs)" | "re_search cs" by auto
    then show "\<exists>stem r. c # cs = stem @ r \<and> match_here r"
    proof cases
      case 1
      then show ?thesis by (intro exI[of _ "[]"] exI[of _ "c # cs"]) simp
    next
      case 2
      with Cons.IH obtain stem r where "cs = stem @ r" "match_here r" by blast
      then show ?thesis by (intro exI[of _ "c # stem"] exI[of _ r]) simp
    qed
  next
    assume "\<exists>stem r. c # cs = stem @ r \<and> match_here r"
    then obtain stem r where sr: "c # cs = stem @ r" "match_here r" by blast
    show "re_search (c # cs)"
    proof (cases stem)
      case Nil
      with sr have "match_here (c # cs)" by simp
      then show ?thesis by simp
    next
      case (Cons d stem')
      with sr have "cs = stem' @ r" by simp
      with sr(2) Cons.IH show ?thesis by auto
    qed
  qed
qed

lemma endswith_iff: "endswith s suf \<longleftrightarrow> (\<exists>pre. s = pre @ suf)"
  unfolding endswith_def
proof
  assume a: "length suf \<le> length s \<and> drop (length s - length suf) s = suf"
  have "s = take (length s - length suf) s @ drop (length s - length suf) s" by simp
  with a show "\<exists>pre. s = pre @ suf" by metis
next
  assume "\<exists>pre. s = pre @ suf"
  then show "length suf \<le> length s \<and> drop (length s - length suf) s = suf" by auto
qed

lemma match_here_iff:
  "match_here r \<longleftrightarrow>
     (\<exists>e ext nl. e \<in> set image_exts \<and> r = CHR ''.'' # ext @ nl \<and> map fold_case ext = e \<and>
        at_dollar nl)"
proof
  assume "match_here r"
  then obtain r' e where r: "r = CHR ''.'' # r'" and e: "e \<in> set image_exts"
    and m: "map fold_case (take (length e) r') = e" and d: "at_dollar (drop (length e) r')"
    by (auto simp: match_here_def list_ex_iff split: list.splits)
  have "r = CHR ''.'' # take (length e) r' @ drop (length e) r'" using r by simp
  with e m d show "\<exists>e ext nl. e \<in> set image_exts \<and> r = CHR ''.'' # ext @ nl \<and>
      map fold_case ext = e \<and> at_dollar nl"
    by blast
next
  assume "\<exists>e ext nl. e \<in> set image_exts \<and> r = CHR ''.'' # ext @ nl \<and> map fold_case ext = e \<and>
      at_dollar nl"
  then obtain e ext nl where e: "e \<in> set image_exts" and r: "r = CHR ''.'' # ext @ nl"
    and m: "map fold_case ext = e" and d: "at_dollar nl" by blast
  from m have len: "length e = length ext" by auto
  have "map fold_case (take (length e) (ext @ nl)) = e" using m len by simp
  moreover have "drop (length e) (ext @ nl) = nl" using len by simp
  ultimately show "match_here r"
    unfolding match_here_def r list_ex_iff using e d by auto
qed

lemma match_hereI:
  "e \<in> set image_exts \<Longrightarrow> map fold_case ext = e \<Longrightarrow> at_dollar nl \<Longrightarrow>
     match_here (CHR ''.'' # ext @ nl)"
  unfolding match_here_iff by blast

lemma ends_with_image_ext_iff:
  "ends_with_image_ext url \<longleftrightarrow>
     (\<exists>e stem ext. e \<in> set image_exts \<and> url = stem @ CHR ''.'' # ext \<and> map fold_case ext = e)"
proof
  assume "ends_with_image_ext url"
  then obtain e pre where e: "e \<in> set image_exts"
    and p: "map fold_case url = pre @ CHR ''.'' # e"
    by (auto simp: ends_with_image_ext_def list_ex_iff endswith_iff)
  from p obtain stem rest where u: "url = stem @ rest" and "map fold_case stem = pre"
    and "map fold_case rest = CHR ''.'' # e"
    by (auto simp: map_eq_append_conv)
  then obtain c ext where "rest = c # ext" "fold_case c = CHR ''.''" "map fold_case ext = e"
    by (auto simp: map_eq_Cons_conv)
  with u e show "\<exists>e stem ext. e \<in> set image_exts \<and> url = stem @ CHR ''.'' # ext \<and>
      map fold_case ext = e"
    by (auto simp: fold_case_dot)
next
  assume "\<exists>e stem ext. e \<in> set image_exts \<and> url = stem @ CHR ''.'' # ext \<and>
      map fold_case ext = e"
  then obtain e stem ext where e: "e \<in> set image_exts" and u: "url = stem @ CHR ''.'' # ext"
    and m: "map fold_case ext = e" by blast
  have "fold_case (CHR ''.'') = CHR ''.''" by (simp add: fold_case_dot)
  with u m have "map fold_case url = map fold_case stem @ CHR ''.'' # e" by simp
  with e show "ends_with_image_ext url"
    by (auto simp: ends_with_image_ext_def list_ex_iff endswith_iff)
qed

text \<open>
  What the regular expression accepts: the extension ends the string, or only one
  newline follows it.
\<close>

lemma is_image_url_iff:
  "is_image_url url \<longleftrightarrow>
     ends_with_image_ext url \<or> (\<exists>u. url = u @ [CHR 0x0A] \<and> ends_with_image_ext u)"
proof
  assume "is_image_url url"
  then obtain stem e ext nl where e: "e \<in> set image_exts"
    and u: "url = stem @ CHR ''.'' # ext @ nl" and m: "map fold_case ext = e"
    and d: "at_dollar nl"
    by (auto simp: is_image_url_def re_search_iff match_here_iff)
  from d consider "nl = []" | "nl = [CHR 0x0A]" by (auto simp: at_dollar_def)
  then show "ends_with_image_ext url \<or> (\<exists>u. url = u @ [CHR 0x0A] \<and> ends_with_image_ext u)"
  proof cases
    case 1
    with e u m have "ends_with_image_ext url" unfolding ends_with_image_ext_iff by auto
    then show ?thesis ..
  next
    case 2
    let ?u = "stem @ CHR ''.'' # ext"
    have "ends_with_image_ext ?u" unfolding ends_with_image_ext_iff using e m by blast
    moreover have "url = ?u @ [CHR 0x0A]" using u 2 by simp
    ultimately show ?thesis by blast
  qed
next
  assume "ends_with_image_ext url \<or> (\<exists>u. url = u @ [CHR 0x0A] \<and> ends_with_image_ext u)"
  then consider "ends_with_image_ext url"
    | u where "url = u @ [CHR 0x0A]" "ends_with_image_ext u"
    by blast
  then show "is_image_url url"
  proof cases
    case 1
    then obtain e stem ext where "e \<in> set image_exts" "url = stem @ CHR ''.'' # ext"
      "map fold_case ext = e"
      unfolding ends_with_image_ext_iff by blast
    then have "url = stem @ (CHR ''.'' # ext @ [])" "match_here (CHR ''.'' # ext @ [])"
      using match_hereI[of e ext "[]"] by (simp_all add: at_dollar_def)
    then show ?thesis unfolding is_image_url_def re_search_iff by blast
  next
    case 2
    then obtain e stem ext where "e \<in> set image_exts" "u = stem @ CHR ''.'' # ext"
      "map fold_case ext = e"
      unfolding ends_with_image_ext_iff by blast
    with 2 have "url = stem @ (CHR ''.'' # ext @ [CHR 0x0A])"
      "match_here (CHR ''.'' # ext @ [CHR 0x0A])"
      using match_hereI[of e ext "[CHR 0x0A]"] by (simp_all add: at_dollar_def)
    then show ?thesis unfolding is_image_url_def re_search_iff by blast
  qed
qed

lemma is_image_url_nonempty: "is_image_url h \<Longrightarrow> h \<noteq> []"
  by (auto simp: is_image_url_def match_here_def)

section \<open>The candidate set\<close>

lemmas locate_simps = images_to_download_def tag_get_def href_or_src_def set_add_def
  full_url_def is_image_url_def match_here_def image_exts_def at_dollar_def fold_case_def

lemma example_soup_images:
  "images_to_download example_soup =
     [''https://example.com/wp-content/gallery/album/thumbs/thumbs_photo.jpg'',
      ''https://example.com/wp-content/gallery/album/photo.jpg'',
      ''/wp-content/gallery/album/photo.jpg'']"
  by (simp add: example_soup_def locate_simps)

lemma two_anchors_images:
  "images_to_download two_anchors = [''https://example.com/wp-content/gallery/album/a.jpg'']"
  by (simp add: two_anchors_def locate_simps)

lemma distinct_set_add: "distinct xs \<Longrightarrow> distinct (set_add x xs)"
  by (simp add: set_add_def)

lemma set_set_add: "set (set_add x xs) = insert x (set xs)"
  by (auto simp: set_add_def)

lemma distinct_strategy1: "distinct acc \<Longrightarrow> distinct (strategy1 tags acc)"
  by (induction tags arbitrary: acc) (auto simp: distinct_set_add split: option.splits)

lemma distinct_strategy2: "distinct acc \<Longrightarrow> distinct (strategy2 tags acc)"
  by (induction tags arbitrary: acc) (auto simp: distinct_set_add split: option.splits)

lemma strategy1_mono: "x \<in> set acc \<Longrightarrow> x \<in> set (strategy1 tags acc)"
  by (induction tags arbitrary: acc) (auto simp: set_set_add split: option.splits)

lemma strategy2_mono: "x \<in> set acc \<Longrightarrow> x \<in> set (strategy2 tags acc)"
  by (induction tags arbitrary: acc) (auto simp: set_set_add split: option.splits)

lemma strategy1_adds:
  "thumb \<in> set tags \<Longrightarrow> tag_get thumb ''href'' = Some href \<Longrightarrow> is_image_url href \<Longrightarrow>
     href \<in> set (strategy1 tags acc)"
proof (induction tags arbitrary: acc)
  case Nil
  then show ?case by simp
next
  case (Cons t tags)
  show ?case
  proof (cases "t = thumb")
    case True
    have "href \<in> set (set_add href acc)" by (simp add: set_set_add)
    then have "href \<in> set (strategy1 tags (set_add href acc))" by (rule strategy1_mono)
    with True Cons.prems show ?thesis by (simp add: is_image_url_nonempty)
  next
    case False
    with Cons.prems have "thumb \<in> set tags" by simp
    with Cons show ?thesis by (auto split: option.splits)
  qed
qed

lemma strategy1_only:
  "h \<in> set (strategy1 tags acc) \<Longrightarrow> h \<in> set acc \<or> is_image_url h"
proof (induction tags arbitrary: acc)
  case Nil
  then show ?case by simp
next
  case (Cons t tags)
  show ?case
  proof (cases "tag_get t ''href''")
    case None
    with Cons show ?thesis by simp
  next
    case (Some href)
    show ?thesis
    proof (cases "href \<noteq> [] \<and> is_image_url href")
      case True
      with Some Cons.prems have "h \<in> set (strategy1 tags (set_add href acc))" by simp
      then have "h \<in> set (set_add href acc) \<or> is_image_url h" by (rule Cons.IH)
      with True show ?thesis by (auto simp: set_set_add)
    next
      case False
      with Some Cons.prems have "h \<in> set (strategy1 tags acc)" by auto
      then show ?thesis by (rule Cons.IH)
    qed
  qed
qed

lemma strategy2_adds:
  "tag \<in> set tags \<Longrightarrow> href_or_src tag = Some url \<Longrightarrow>
     contains ''/wp-content/gallery/'' url \<Longrightarrow>
     (if contains ''/thumbs/'' url then full_url url else url) \<in> set (strategy2 tags acc)"
proof (induction tags arbitrary: acc)
  case Nil
  then show ?case by simp
next
  case (Cons t tags)
  let ?c = "if contains ''/thumbs/'' url then full_url url else url"
  show ?case
  proof (cases "t = tag")
    case True
    have ne: "url \<noteq> []" using Cons.prems(3) by auto
    have "?c \<in> set (set_add ?c acc)" by (simp add: set_set_add)
    then have "?c \<in> set (strategy2 tags (set_add ?c acc))" by (rule strategy2_mono)
    with True Cons.prems ne show ?thesis by (simp split: if_splits)
  next
    case False
    with Cons.prems have "tag \<in> set tags" by simp
    with Cons show ?thesis by (auto split: option.splits)
  qed
qed

text \<open>
  C10, as the code has it. The widget-container pass keeps an address only if the image
  extension ends the string or is followed by nothing but one final newline; an address
  with anything else after the extension, such as \<open>photo.jpg?w=800\<close>, is not added by
  that pass.
\<close>

theorem widget_pass_extension:
  "(h \<in> set (strategy1 tags []) \<longrightarrow>
      ends_with_image_ext h \<or> (\<exists>u. h = u @ [CHR 0x0A] \<and> ends_with_image_ext u)) \<and>
   \<not> is_image_url ''photo.jpg?w=800''"
proof
  show "h \<in> set (strategy1 tags []) \<longrightarrow>
      ends_with_image_ext h \<or> (\<exists>u. h = u @ [CHR 0x0A] \<and> ends_with_image_ext u)"
    using strategy1_only[of h tags "[]"] by (simp add: is_image_url_iff)
  show "\<not> is_image_url ''photo.jpg?w=800''"
    by (simp add: locate_simps)
qed

theorem widget_pass_extension_witness:
  "''photo.JPG'' \<in> set (strategy1 [Element ''a'' [''ngg-fancybox''] [(''href'', ''photo.JPG'')] []] [])
   \<and> ends_with_image_ext ''photo.JPG''"
proof -
  have m: "''photo.JPG'' \<in> set (strategy1 [Element ''a'' [''ngg-fancybox''] [(''href'', ''photo.JPG'')] []] [])"
    by (simp add: locate_simps)
  have n: "\<not> (\<exists>u. ''photo.JPG'' = u @ [CHR 0x0A] \<and> ends_with_image_ext u)"
    by (auto simp: append_eq_Cons_conv Cons_eq_append_conv)
  from widget_pass_extension[of "''photo.JPG''"
      "[Element ''a'' [''ngg-fancybox''] [(''href'', ''photo.JPG'')] []]"] m n
  show ?thesis by blast
qed

text \<open>
  C10 as stated fails: an address that ends with a newline after the extension is
  accepted by the pass, although the extension does not end the string.
\<close>

theorem widget_pass_accepts_trailing_newline:
  "strategy1 (concat (map (select_ngg False) newline_anchor)) [] = [''photo.jpg'' @ [CHR 0x0A]]
   \<and> \<not> ends_with_image_ext (''photo.jpg'' @ [CHR 0x0A])"
  by (simp add: newline_anchor_def locate_simps ends_with_image_ext_def endswith_def)

text \<open>
  C1, as the code has it. The candidate set holds no string twice; the path-pattern pass
  rewrites a thumbnail address before adding it, so two plain anchors at \<open>a.jpg\<close> and at
  \<open>thumbs/thumbs_a.jpg\<close> give one entry. (The set is built before the candidates are
  made absolute.)
\<close>

theorem images_to_download_distinct:
  "distinct (images_to_download soup) \<and>
   images_to_download two_anchors = [''https://example.com/wp-content/gallery/album/a.jpg'']"
  using two_anchors_images
  by (simp add: images_to_download_def distinct_strategy1 distinct_strategy2)

text \<open>
  C1 as stated fails: the candidates of the example page that the loop iterates are
  three strings, and two of them are the same address once made absolute.
\<close>

theorem resolved_candidates_repeat:
  "map (resolve example_world ''https://example.com/gallery'') (images_to_download example_soup) =
     [Inr ''https://example.com/wp-content/gallery/album/thumbs/thumbs_photo.jpg'',
      Inr ''https://example.com/wp-content/gallery/album/photo.jpg'',
      Inr ''https://example.com/wp-content/gallery/album/photo.jpg'']"
  by (simp add: example_soup_images resolve_def startswith_def example_world_def)

section \<open>The download loop\<close>

lemmas run_simps = download_image_def fetch_image_def resolve_def startswith_def endswith_def
  os_path_join_def os_path_basename_def os_path_exists_def log_def example_world_def
  initial_state_def

lemma download_image_skip:
  "resolve w link cand = Inr img_url \<Longrightarrow> url_path w img_url = Inr path \<Longrightarrow>
   os_path_exists st (os_path_join dir (os_path_basename path)) \<Longrightarrow>
   download_image w link dir cand st = Inr st"
  by (simp add: download_image_def)

lemma download_image_fetch:
  "resolve w link cand = Inr img_url \<Longrightarrow> url_path w img_url = Inr path \<Longrightarrow>
   \<not> os_path_exists st (os_path_join dir (os_path_basename path)) \<Longrightarrow>
   download_image w link dir cand st =
     Inr (fetch_image w img_url (os_path_join dir (os_path_basename path)) st)"
  by (simp add: download_image_def)

lemma download_image_cases:
  assumes "download_image w link dir cand st = Inr st'"
  obtains (skip) "st' = st"
  | (fetch) img_url path where "resolve w link cand = Inr img_url" "url_path w img_url = Inr path"
      "\<not> os_path_exists st (os_path_join dir (os_path_basename path))"
      "st' = fetch_image w img_url (os_path_join dir (os_path_basename path)) st"
proof (cases "resolve w link cand")
  case (Inl e)
  with assms show ?thesis by (simp add: download_image_def)
next
  case r: (Inr img_url)
  show ?thesis
  proof (cases "url_path w img_url")
    case (Inl e)
    with r assms show ?thesis by (simp add: download_image_def)
  next
    case p: (Inr path)
    show ?thesis
    proof (cases "os_path_exists st (os_path_join dir (os_path_basename path))")
      case True
      with r p assms have "st' = st" by (simp add: download_image_skip)
      then show ?thesis by (rule skip)
    next
      case False
      with r p assms
      have "st' = fetch_image w img_url (os_path_join dir (os_path_basename path)) st"
        by (simp add: download_image_fetch)
      with r p False show ?thesis by (rule fetch)
    qed
  qed
qed

lemma fetch_image_trace:
  "\<exists>evs. trace (fetch_image w u fp st) = trace st @ evs \<and>
     set evs \<subseteq> {GetImage u, PrintErrorDownloading u}"
  by (auto simp: fetch_image_def log_def Let_def split: image_response.splits)

lemma fetch_image_files:
  "p \<noteq> fp \<Longrightarrow> files (fetch_image w u fp st) p = files st p"
  by (auto simp: fetch_image_def log_def Let_def split: image_response.splits)

lemma fetch_image_dirs: "dirs (fetch_image w u fp st) = dirs st"
  by (auto simp: fetch_image_def log_def Let_def split: image_response.splits)

lemma fetch_image_exists:
  "os_path_exists st p \<Longrightarrow> os_path_exists (fetch_image w u fp st) p"
  by (auto simp: fetch_image_def log_def Let_def os_path_exists_def split: image_response.splits)

lemma download_image_keeps:
  assumes "download_image w link dir cand st = Inr st'"
    and "os_path_exists st fp"
  shows "os_path_exists st' fp \<and> files st' fp = files st fp \<and>
     (\<exists>evs. trace st' = trace st @ evs \<and>
        (\<forall>u path. url_path w u = Inr path \<and> fp = os_path_join dir (os_path_basename path) \<longrightarrow>
           GetImage u \<notin> set evs))"
  using assms(1)
proof (cases rule: download_image_cases)
  case skip
  with assms(2) show ?thesis by simp
next
  case (fetch img_url path)
  let ?fp' = "os_path_join dir (os_path_basename path)"
  from fetch(3) assms(2) have ne: "fp \<noteq> ?fp'" by auto
  obtain evs where evs: "trace st' = trace st @ evs"
    "set evs \<subseteq> {GetImage img_url, PrintErrorDownloading img_url}"
    using fetch_image_trace[of w img_url ?fp' st] fetch(4) by auto
  have "\<forall>u path'. url_path w u = Inr path' \<and> fp = os_path_join dir (os_path_basename path') \<longrightarrow>
           GetImage u \<notin> set evs"
  proof (intro allI impI notI)
    fix u path'
    assume a: "url_path w u = Inr path' \<and> fp = os_path_join dir (os_path_basename path')"
      and "GetImage u \<in> set evs"
    with evs(2) have "u = img_url" by auto
    with a fetch(2) ne show False by simp
  qed
  with evs(1) fetch(4) assms(2) ne show ?thesis
    by (auto simp: fetch_image_exists fetch_image_files)
qed

lemma download_images_keeps:
  "os_path_exists st fp \<Longrightarrow>
   os_path_exists (snd (download_images w link dir cands st)) fp \<and>
   files (snd (download_images w link dir cands st)) fp = files st fp \<and>
   (\<exists>evs. trace (snd (download_images w link dir cands st)) = trace st @ evs \<and>
      (\<forall>u path. url_path w u = Inr path \<and> fp = os_path_join dir (os_path_basename path) \<longrightarrow>
         GetImage u \<notin> set evs))"
proof (induction cands arbitrary: st)
  case Nil
  then show ?case by simp
next
  case (Cons c cands)
  show ?case
  proof (cases "download_image w link dir c st")
    case (Inl e)
    with Cons.prems show ?thesis by simp
  next
    case (Inr st')
    from download_image_keeps[OF Inr Cons.prems] obtain evs1 where
      k: "os_path_exists st' fp" "files st' fp = files st fp" "trace st' = trace st @ evs1"
      "\<forall>u path. url_path w u = Inr path \<and> fp = os_path_join dir (os_path_basename path) \<longrightarrow>
           GetImage u \<notin> set evs1" by blast
    from Cons.IH[OF k(1)] obtain evs2 where
      i: "os_path_exists (snd (download_images w link dir cands st')) fp"
      "files (snd (download_images w link dir cands st')) fp = files st' fp"
      "trace (snd (download_images w link dir cands st')) = trace st' @ evs2"
      "\<forall>u path. url_path w u = Inr path \<and> fp = os_path_join dir (os_path_basename path) \<longrightarrow>
           GetImage u \<notin> set evs2" by blast
    have "trace (snd (download_images w link dir cands st')) = trace st @ (evs1 @ evs2)"
      using i(3) k(3) by simp
    moreover have "\<forall>u path. url_path w u = Inr path \<and> fp = os_path_join dir (os_path_basename path) \<longrightarrow>
           GetImage u \<notin> set (evs1 @ evs2)" using k(4) i(4) by auto
    ultimately show ?thesis using Inr i(1,2) k(2) by (simp del: set_append)
  qed
qed

text \<open>
  C8. If the file named after the resolved address exists in the directory of the
  record, the pass of the loop for that address changes nothing (no request, no write,
  no count), and in the whole loop the address is never requested and the file keeps its
  contents.
\<close>

theorem existing_file_is_skipped:
  assumes "resolve w link cand = Inr img_url"
    and "url_path w img_url = Inr path"
    and "os_path_exists st (os_path_join dir (os_path_basename path))"
  shows "download_image w link dir cand st = Inr st \<and>
     files (snd (download_images w link dir cands st)) (os_path_join dir (os_path_basename path)) =
       files st (os_path_join dir (os_path_basename path)) \<and>
     (\<exists>evs. trace (snd (download_images w link dir cands st)) = trace st @ evs \<and>
        GetImage img_url \<notin> set evs)"
proof -
  have "download_image w link dir cand st = Inr st"
    using assms by (rule download_image_skip)
  moreover from download_images_keeps[where w = w and link = link and cands = cands, OF assms(3)]
    assms(2)
  have "files (snd (download_images w link dir cands st)) (os_path_join dir (os_path_basename path)) =
       files st (os_path_join dir (os_path_basename path)) \<and>
     (\<exists>evs. trace (snd (download_images w link dir cands st)) = trace st @ evs \<and>
        GetImage img_url \<notin> set evs)" by blast
  ultimately show ?thesis by simp
qed

theorem existing_file_is_skipped_witness:
  "resolve example_world ''https://example.com/gallery'' ''/wp-content/gallery/album/photo.jpg'' =
     Inr ''https://example.com/wp-content/gallery/album/photo.jpg'' \<and>
   url_path example_world ''https://example.com/wp-content/gallery/album/photo.jpg'' =
     Inr ''/wp-content/gallery/album/photo.jpg'' \<and>
   os_path_exists existing_state
     (os_path_join ''out/gallery'' (os_path_basename ''/wp-content/gallery/album/photo.jpg'')) \<and>
   download_image example_world ''https://example.com/gallery'' ''out/gallery''
     ''/wp-content/gallery/album/photo.jpg'' existing_state = Inr existing_state"
proof -
  have 1: "resolve example_world ''https://example.com/gallery''
      ''/wp-content/gallery/album/photo.jpg'' =
     Inr ''https://example.com/wp-content/gallery/album/photo.jpg''"
    by (simp add: resolve_def startswith_def example_world_def)
  have 2: "url_path example_world ''https://example.com/wp-content/gallery/album/photo.jpg'' =
     Inr ''/wp-content/gallery/album/photo.jpg''"
    by (simp add: startswith_def example_world_def)
  have 3: "os_path_exists existing_state
     (os_path_join ''out/gallery'' (os_path_basename ''/wp-content/gallery/album/photo.jpg''))"
    by (simp add: existing_state_def run_simps)
  show ?thesis by (intro conjI 1 2 3 existing_file_is_skipped[OF 1 2 3, THEN conjunct1])
qed

lemma fetch_image_fails_count:
  "image_fails w u fp \<Longrightarrow> total_downloaded (fetch_image w u fp st) = total_downloaded st"
  by (auto simp: image_fails_def fetch_image_def log_def Let_def split: image_response.splits)


lemma resolve_get_image_update: "resolve (w\<lparr>get_image := g\<rparr>) link cand = resolve w link cand"
  by (simp add: resolve_def)

text \<open>
  C9. If copying raises after the file was opened, the file stays under its final name
  with the bytes written so far and the counter is not incremented; from then on the
  pass for this candidate changes nothing, whatever the site would answer.
\<close>

theorem partial_file_is_kept:
  assumes "resolve w link cand = Inr img_url"
    and "url_path w img_url = Inr path"
    and "\<not> os_path_exists st (os_path_join dir (os_path_basename path))"
    and "get_image w img_url = Image 200 chunks True"
    and "\<not> open_fails w (os_path_join dir (os_path_basename path))"
  shows "\<exists>st'. download_image w link dir cand st = Inr st' \<and>
     files st' (os_path_join dir (os_path_basename path)) = Some (concat chunks) \<and>
     total_downloaded st' = total_downloaded st \<and>
     (\<forall>g. download_image (w\<lparr>get_image := g\<rparr>) link dir cand st' = Inr st')"
proof -
  let ?fp = "os_path_join dir (os_path_basename path)"
  let ?st' = "fetch_image w img_url ?fp st"
  have 1: "download_image w link dir cand st = Inr ?st'"
    using assms(1-3) by (rule download_image_fetch)
  have 2: "files ?st' ?fp = Some (concat chunks)" "total_downloaded ?st' = total_downloaded st"
    using assms(4,5) by (simp_all add: fetch_image_def log_def)
  from 2(1) have ex: "os_path_exists ?st' ?fp" by (simp add: os_path_exists_def)
  have "\<forall>g. download_image (w\<lparr>get_image := g\<rparr>) link dir cand ?st' = Inr ?st'"
  proof
    fix g
    have "resolve (w\<lparr>get_image := g\<rparr>) link cand = Inr img_url"
      using assms(1) by (simp only: resolve_get_image_update)
    moreover have "url_path (w\<lparr>get_image := g\<rparr>) img_url = Inr path" using assms(2) by simp
    ultimately show "download_image (w\<lparr>get_image := g\<rparr>) link dir cand ?st' = Inr ?st'"
      using ex by (rule download_image_skip)
  qed
  with 1 2 show ?thesis by blast
qed

theorem partial_file_is_kept_witness:
  "resolve example_world ''https://example.com/gallery''
     ''https://example.com/wp-content/gallery/album/thumbs/thumbs_photo.jpg'' =
     Inr ''https://example.com/wp-content/gallery/album/thumbs/thumbs_photo.jpg'' \<and>
   url_path example_world ''https://example.com/wp-content/gallery/album/thumbs/thumbs_photo.jpg'' =
     Inr ''/wp-content/gallery/album/thumbs/thumbs_photo.jpg'' \<and>
   \<not> os_path_exists initial_state
     (os_path_join ''out/gallery''
        (os_path_basename ''/wp-content/gallery/album/thumbs/thumbs_photo.jpg'')) \<and>
   get_image example_world ''https://example.com/wp-content/gallery/album/thumbs/thumbs_photo.jpg'' =
     Image 200 [''JF''] True \<and>
   \<not> open_fails example_world
     (os_path_join ''out/gallery''
        (os_path_basename ''/wp-content/gallery/album/thumbs/thumbs_photo.jpg'')) \<and>
   (\<exists>st'. download_image example_world ''https://example.com/gallery'' ''out/gallery''
        ''https://example.com/wp-content/gallery/album/thumbs/thumbs_photo.jpg'' initial_state =
        Inr st' \<and>
      files st' (os_path_join ''out/gallery''
        (os_path_basename ''/wp-content/gallery/album/thumbs/thumbs_photo.jpg'')) =
        Some (concat [''JF'']) \<and>
      total_downloaded st' = total_downloaded initial_state \<and>
      (\<forall>g. download_image (example_world\<lparr>get_image := g\<rparr>) ''https://example.com/gallery''
         ''out/gallery'' ''https://example.com/wp-content/gallery/album/thumbs/thumbs_photo.jpg''
         st' = Inr st'))"
proof -
  have 1: "resolve example_world ''https://example.com/gallery''
     ''https://example.com/wp-content/gallery/album/thumbs/thumbs_photo.jpg'' =
     Inr ''https://example.com/wp-content/gallery/album/thumbs/thumbs_photo.jpg''"
    by (simp add: resolve_def startswith_def example_world_def)
  have 2: "url_path example_world
     ''https://example.com/wp-content/gallery/album/thumbs/thumbs_photo.jpg'' =
     Inr ''/wp-content/gallery/album/thumbs/thumbs_photo.jpg''"
    by (simp add: startswith_def example_world_def)
  have 3: "\<not> os_path_exists initial_state
     (os_path_join ''out/gallery''
        (os_path_basename ''/wp-content/gallery/album/thumbs/thumbs_photo.jpg''))"
    by (simp add: run_simps)
  have 4: "get_image example_world
     ''https://example.com/wp-content/gallery/album/thumbs/thumbs_photo.jpg'' =
     Image 200 [''JF''] True"
    by (simp add: example_world_def)
  have 5: "\<not> open_fails example_world
     (os_path_join ''out/gallery''
        (os_path_basename ''/wp-content/gallery/album/thumbs/thumbs_photo.jpg''))"
    by (simp add: run_simps)
  note c = partial_file_is_kept[OF 1 2 3 4 5]
  show ?thesis by (intro conjI 1 2 3 4 5 c)
qed






lemma resolvesI: "resolve w link c = Inr u \<Longrightarrow> url_path w u = Inr p \<Longrightarrow> resolves w link c"
  by (simp add: resolves_def)












section \<open>Steps\<close>











section \<open>The events a step adds\<close>













section \<open>Records\<close>













section \<open>The delay between records\<close>










section \<open>Running the crawl twice\<close>












































end
